theory Spec2Isabelle
  imports Main
begin

section \<open>The code-room relay of server/routes.ts\<close>

text \<open>
  The relay is the WebSocket part of \<^verbatim>\<open>registerRoutes\<close>: the registry
  \<^verbatim>\<open>rooms\<close>, the per-connection variables \<^verbatim>\<open>roomId\<close> and \<^verbatim>\<open>userId\<close>,
  the \<^verbatim>\<open>message\<close> and \<^verbatim>\<open>close\<close> listeners and \<^verbatim>\<open>broadcastToRoom\<close>.

  Node runs the listeners one at a time, so a listener is a function from the relay's
  state to the new state and to what it did. The transport (the \<^verbatim>\<open>ws\<close> library) and the
  clock are outside the repository: they are the parameter \<open>env\<close> of every listener.
\<close>

subsection \<open>Values\<close>

text \<open>A connection handle: the identity of one \<^verbatim>\<open>ws\<close> object.\<close>

type_synonym conn = nat

text \<open>
  The JavaScript values that reach the exclusion test of \<^verbatim>\<open>broadcastToRoom\<close>:
  \<^verbatim>\<open>null\<close> (the parameter's default), a number (a user id) and a reference to a
  connection object (the \<^verbatim>\<open>client\<close> of the loop).
\<close>

datatype jsval = JNull | JNum int | JRef conn

text \<open>JavaScript's truthiness, as \<^verbatim>\<open>excludeUserId && ...\<close> tests it.\<close>

fun truthy :: "jsval \<Rightarrow> bool" where
  "truthy JNull = False"
| "truthy (JNum n) = (n \<noteq> 0)"
| "truthy (JRef c) = True"

text \<open>JavaScript's \<^verbatim>\<open>===\<close>: values of different types are never equal.\<close>

fun strict_eq :: "jsval \<Rightarrow> jsval \<Rightarrow> bool" where
  "strict_eq JNull JNull = True"
| "strict_eq (JNum a) (JNum b) = (a = b)"
| "strict_eq (JRef a) (JRef b) = (a = b)"
| "strict_eq _ _ = False"

subsection \<open>Events\<close>

text \<open>
  The inbound envelope after \<^verbatim>\<open>JSON.parse\<close>, with its fields at the types of the
  interface: \<^verbatim>\<open>roomId\<close> and the texts are strings, \<^verbatim>\<open>userId\<close> is an integer.
  \<open>Undecodable\<close> is a payload on which \<^verbatim>\<open>JSON.parse\<close> (or reading \<^verbatim>\<open>data.type\<close>)
  throws; \<open>UnknownType\<close> is a decoded value whose \<^verbatim>\<open>type\<close> is none of the three.
\<close>

datatype in_event =
    Join string int string
  | CodeUpdate string string string int string
  | ChatMessage string string int string
  | UnknownType string
  | Undecodable

text \<open>
  The outbound envelopes, in the order of their fields in the source:
  \<open>UserJoined userId username timestamp\<close>, \<open>RoomInfo roomId userCount timestamp\<close>,
  \<open>CodeUpdateMsg code language userId username timestamp\<close>,
  \<open>ChatMessageMsg message userId username timestamp\<close>, \<open>UserLeft userId timestamp\<close>.
\<close>

datatype out_msg =
    UserJoined int string string
  | RoomInfo string nat string
  | CodeUpdateMsg string string int string string
  | ChatMessageMsg string int string string
  | UserLeft int string

subsection \<open>The transport and the clock\<close>

text \<open>
  \<open>readyState c\<close> is \<^verbatim>\<open>c.readyState\<close> (1 is open); \<open>sendThrows c\<close> says that
  \<^verbatim>\<open>c.send(...)\<close> throws; \<open>clock i\<close> is the \<open>i\<close>-th \<^verbatim>\<open>new Date().toISOString()\<close>
  read while one event is handled.
\<close>

record env =
  readyState :: "conn \<Rightarrow> nat"
  sendThrows :: "conn \<Rightarrow> bool"
  clock :: "nat \<Rightarrow> string"

text \<open>\<open>is_open e c\<close> is the test \<^verbatim>\<open>client.readyState === 1\<close>.\<close>

definition is_open :: "env \<Rightarrow> conn \<Rightarrow> bool" where
  "is_open e c = (readyState e c = 1)"

subsection \<open>The state\<close>

text \<open>
  The variables \<^verbatim>\<open>let roomId = ""; let userId = 0\<close> of one connection's closure.
\<close>

record conn_vars =
  roomId :: string
  userId :: int

text \<open>
  \<^verbatim>\<open>rooms: Record<string, Set<any>>\<close>. A JavaScript \<^verbatim>\<open>Set\<close> iterates in insertion
  order and holds no element twice: it is the list of its elements in that order.
\<close>

record relay =
  rooms :: "string \<rightharpoonup> conn list"
  vars :: "conn \<Rightarrow> conn_vars"

definition init_vars :: conn_vars where
  "init_vars = \<lparr>roomId = '''', userId = 0\<rparr>"

definition init_relay :: relay where
  "init_relay = \<lparr>rooms = Map.empty, vars = (\<lambda>c. init_vars)\<rparr>"

text \<open>\<^verbatim>\<open>Set.prototype.add\<close> and \<^verbatim>\<open>Set.prototype.delete\<close>.\<close>

definition set_add :: "conn \<Rightarrow> conn list \<Rightarrow> conn list" where
  "set_add c cs = (if c \<in> set cs then cs else cs @ [c])"

definition set_delete :: "conn \<Rightarrow> conn list \<Rightarrow> conn list" where
  "set_delete c cs = removeAll c cs"

text \<open>
  \<^verbatim>\<open>rooms\<close> is a plain object literal, so \<^verbatim>\<open>rooms[k]\<close> also finds what
  \<^verbatim>\<open>Object.prototype\<close> defines under \<open>k\<close>: a function (or, for \<^verbatim>\<open>__proto__\<close>, the
  prototype itself). Such a value is truthy and has no \<^verbatim>\<open>add\<close>, \<^verbatim>\<open>delete\<close>,
  \<^verbatim>\<open>forEach\<close> or \<^verbatim>\<open>size\<close>.
\<close>

definition object_prototype_keys :: "string list" where
  "object_prototype_keys =
     [''constructor'', ''__defineGetter__'', ''__defineSetter__'', ''hasOwnProperty'',
      ''__lookupGetter__'', ''__lookupSetter__'', ''isPrototypeOf'',
      ''propertyIsEnumerable'', ''toString'', ''valueOf'', ''__proto__'',
      ''toLocaleString'']"

datatype lookup = Absent | Inherited | RoomSet "conn list"

definition rooms_get :: "(string \<rightharpoonup> conn list) \<Rightarrow> string \<Rightarrow> lookup" where
  "rooms_get rs k =
     (case rs k of
        Some cs \<Rightarrow> RoomSet cs
      | None \<Rightarrow> if k \<in> set object_prototype_keys then Inherited else Absent)"

subsection \<open>broadcastToRoom\<close>

text \<open>
  The \<^verbatim>\<open>forEach\<close> of \<^verbatim>\<open>broadcastToRoom\<close>. The result is the list of the sends that
  returned, in order, and whether a send threw: nothing in the loop catches, so a
  throw ends it.
\<close>

fun forEach_send ::
  "env \<Rightarrow> out_msg \<Rightarrow> jsval \<Rightarrow> conn list \<Rightarrow> (conn \<times> out_msg) list \<times> bool" where
  "forEach_send e m ex [] = ([], False)"
| "forEach_send e m ex (client # cs) =
     (if readyState e client = 1 then
        (if truthy ex \<and> strict_eq (JRef client) ex then forEach_send e m ex cs
         else if sendThrows e client then ([], True)
         else (case forEach_send e m ex cs of (ds, t) \<Rightarrow> ((client, m) # ds, t)))
      else forEach_send e m ex cs)"

definition broadcastToRoom ::
  "env \<Rightarrow> (string \<rightharpoonup> conn list) \<Rightarrow> string \<Rightarrow> out_msg \<Rightarrow> jsval
     \<Rightarrow> (conn \<times> out_msg) list \<times> bool" where
  "broadcastToRoom e rs rid m excludeUserId =
     (case rooms_get rs rid of
        Absent \<Rightarrow> ([], False)
      | Inherited \<Rightarrow> ([], True)
      | RoomSet cs \<Rightarrow> forEach_send e m excludeUserId cs)"

subsection \<open>The message listener\<close>

text \<open>
  The \<^verbatim>\<open>join\<close> branch. The assignments to the connection's variables and to the
  registry that precede a throw stay done.
\<close>

definition join_branch ::
  "env \<Rightarrow> conn \<Rightarrow> string \<Rightarrow> int \<Rightarrow> string \<Rightarrow> relay
     \<Rightarrow> relay \<times> (conn \<times> out_msg) list \<times> bool" where
  "join_branch e ws rid uid uname s =
     (let s1 = s\<lparr>vars := (vars s)(ws := \<lparr>roomId = rid, userId = uid\<rparr>)\<rparr>;
          s2 = (if rooms_get (rooms s1) rid = Absent
                then s1\<lparr>rooms := (rooms s1)(rid \<mapsto> [])\<rparr> else s1)
      in case rooms_get (rooms s2) rid of
           RoomSet cs \<Rightarrow>
             (let s3 = s2\<lparr>rooms := (rooms s2)(rid \<mapsto> set_add ws cs)\<rparr>
              in case broadcastToRoom e (rooms s3) rid
                        (UserJoined uid uname (clock e 0)) (JNum uid) of
                   (ds, thrown) \<Rightarrow>
                     if thrown then (s3, ds, True)
                     else if sendThrows e ws then (s3, ds, True)
                     else (s3,
                           ds @ [(ws, RoomInfo rid (length (set_add ws cs)) (clock e 1))],
                           False))
         | _ \<Rightarrow> (s2, [], True))"

text \<open>
  The body of the \<^verbatim>\<open>try\<close> block: the new state, the sends that returned, and
  whether the block threw.
\<close>

fun message_try ::
  "env \<Rightarrow> conn \<Rightarrow> in_event \<Rightarrow> relay \<Rightarrow> relay \<times> (conn \<times> out_msg) list \<times> bool" where
  "message_try e ws (Join rid uid uname) s = join_branch e ws rid uid uname s"
| "message_try e ws (CodeUpdate rid code language uid uname) s =
     (case broadcastToRoom e (rooms s) (roomId (vars s ws))
             (CodeUpdateMsg code language uid uname (clock e 0))
             (JNum (userId (vars s ws))) of
        (ds, thrown) \<Rightarrow> (s, ds, thrown))"
| "message_try e ws (ChatMessage rid message uid uname) s =
     (case broadcastToRoom e (rooms s) (roomId (vars s ws))
             (ChatMessageMsg message uid uname (clock e 0)) JNull of
        (ds, thrown) \<Rightarrow> (s, ds, thrown))"
| "message_try e ws (UnknownType t) s = (s, [], False)"
| "message_try e ws Undecodable s = (s, [], True)"

text \<open>
  What a listener did: the state it leaves, the sends that returned, whether it
  logged through \<^verbatim>\<open>console.error\<close>, whether an exception left the listener,
  and the connections it closed (the source calls neither \<^verbatim>\<open>close\<close> nor
  \<^verbatim>\<open>terminate\<close> on a connection, so there are none).
\<close>

record result =
  relay_of :: relay
  sends :: "(conn \<times> out_msg) list"
  logged :: bool
  escaped :: bool
  closes :: "conn list"

text \<open>\<^verbatim>\<open>ws.on("message", ...)\<close>: the \<^verbatim>\<open>catch\<close> logs whatever the block threw.\<close>

definition on_message :: "env \<Rightarrow> conn \<Rightarrow> in_event \<Rightarrow> relay \<Rightarrow> result" where
  "on_message e ws ev s =
     (case message_try e ws ev s of
        (s', ds, thrown) \<Rightarrow>
          \<lparr>relay_of = s', sends = ds, logged = thrown, escaped = False, closes = []\<rparr>)"

subsection \<open>The close listener\<close>

text \<open>\<^verbatim>\<open>ws.on("close", ...)\<close>: no \<^verbatim>\<open>try\<close> here, so a throw leaves the listener.\<close>

definition on_close :: "env \<Rightarrow> conn \<Rightarrow> relay \<Rightarrow> result" where
  "on_close e ws s =
     (let rid = roomId (vars s ws); uid = userId (vars s ws)
      in if rid \<noteq> '''' \<and> rooms_get (rooms s) rid \<noteq> Absent then
           (case rooms_get (rooms s) rid of
              RoomSet cs \<Rightarrow>
                (let s1 = s\<lparr>rooms := (rooms s)(rid \<mapsto> set_delete ws cs)\<rparr>
                 in case broadcastToRoom e (rooms s1) rid
                           (UserLeft uid (clock e 0)) JNull of
                      (ds, thrown) \<Rightarrow>
                        if thrown then
                          \<lparr>relay_of = s1, sends = ds, logged = False, escaped = True, closes = []\<rparr>
                        else if length (set_delete ws cs) = 0 then
                          \<lparr>relay_of = s1\<lparr>rooms := (rooms s1)(rid := None)\<rparr>,
                           sends = ds, logged = False, escaped = False, closes = []\<rparr>
                        else
                          \<lparr>relay_of = s1, sends = ds, logged = False, escaped = False, closes = []\<rparr>)
            | _ \<Rightarrow> \<lparr>relay_of = s, sends = [], logged = False, escaped = True, closes = []\<rparr>)
         else \<lparr>relay_of = s, sends = [], logged = False, escaped = False, closes = []\<rparr>)"

subsection \<open>Runs of the relay\<close>

text \<open>
  One listener call: a message on a connection, or the close of a connection. A run
  is a list of calls, each with the transport and clock it meets.
\<close>

datatype op = OpMessage conn in_event | OpClose conn

fun apply_op :: "env \<Rightarrow> op \<Rightarrow> relay \<Rightarrow> relay" where
  "apply_op e (OpMessage c ev) s = relay_of (on_message e c ev s)"
| "apply_op e (OpClose c) s = relay_of (on_close e c s)"

fun run :: "relay \<Rightarrow> (env \<times> op) list \<Rightarrow> relay" where
  "run s [] = s"
| "run s ((e, a) # steps) = run (apply_op e a s) steps"

section \<open>What the specification speaks of\<close>

subsection \<open>Joins and leaves, counted from the calls alone\<close>

text \<open>
  The connections that joined room \<open>r\<close> and have not since left it, starting from
  the set \<open>S\<close>: a join of \<open>r\<close> adds the connection, a close removes it.
\<close>

fun joined_not_left :: "string \<Rightarrow> conn set \<Rightarrow> op list \<Rightarrow> conn set" where
  "joined_not_left r S [] = S"
| "joined_not_left r S (OpMessage c (Join r' uid uname) # ops) =
     joined_not_left r (if r' = r then insert c S else S) ops"
| "joined_not_left r S (OpMessage c ev # ops) = joined_not_left r S ops"
| "joined_not_left r S (OpClose c # ops) = joined_not_left r (S - {c}) ops"

text \<open>
  The preconditions of \<open>join\<close>: the room identifier is a non-empty string and the
  participant is not registered in any room (\<open>R\<close> is the set of the registered
  ones).
\<close>

fun joins_ok :: "conn set \<Rightarrow> op list \<Rightarrow> bool" where
  "joins_ok R [] = True"
| "joins_ok R (OpMessage c (Join r uid uname) # ops) =
     (c \<notin> R \<and> r \<noteq> '''' \<and> joins_ok (insert c R) ops)"
| "joins_ok R (OpMessage c ev # ops) = joins_ok R ops"
| "joins_ok R (OpClose c # ops) = joins_ok (R - {c}) ops"

text \<open>
  The same bookkeeping as a map from a registered connection to its room, and the
  weaker precondition that also lets a connection join again the room it is in.
\<close>

fun ledger_step :: "(conn \<rightharpoonup> string) \<Rightarrow> op \<Rightarrow> (conn \<rightharpoonup> string)" where
  "ledger_step m (OpMessage c (Join r uid uname)) = m(c \<mapsto> r)"
| "ledger_step m (OpMessage c ev) = m"
| "ledger_step m (OpClose c) = m(c := None)"

fun join_allowed :: "(conn \<rightharpoonup> string) \<Rightarrow> op \<Rightarrow> bool" where
  "join_allowed m (OpMessage c (Join r uid uname)) =
     (r \<noteq> '''' \<and> (m c = None \<or> m c = Some r))"
| "join_allowed m a = True"

fun ledger :: "(conn \<rightharpoonup> string) \<Rightarrow> op list \<Rightarrow> (conn \<rightharpoonup> string)" where
  "ledger m [] = m"
| "ledger m (a # ops) = ledger (ledger_step m a) ops"

fun joins_allowed :: "(conn \<rightharpoonup> string) \<Rightarrow> op list \<Rightarrow> bool" where
  "joins_allowed m [] = True"
| "joins_allowed m (a # ops) = (join_allowed m a \<and> joins_allowed (ledger_step m a) ops)"

text \<open>No join arrives on connection \<open>c\<close>.\<close>

fun never_joined :: "conn \<Rightarrow> op list \<Rightarrow> bool" where
  "never_joined c [] = True"
| "never_joined c (OpMessage c' (Join r uid uname) # ops) =
     (c' \<noteq> c \<and> never_joined c ops)"
| "never_joined c (a # ops) = never_joined c ops"

text \<open>Every join names a non-empty room.\<close>

fun nonempty_ids :: "op list \<Rightarrow> bool" where
  "nonempty_ids [] = True"
| "nonempty_ids (OpMessage c (Join r uid uname) # ops) = (r \<noteq> '''' \<and> nonempty_ids ops)"
| "nonempty_ids (a # ops) = nonempty_ids ops"

subsection \<open>Predicates on states, events and sends\<close>

text \<open>No registered room is empty.\<close>

definition nonempty_rooms :: "relay \<Rightarrow> bool" where
  "nonempty_rooms s \<longleftrightarrow> (\<forall>r cs. rooms s r = Some cs \<longrightarrow> cs \<noteq> [])"

text \<open>
  The registry agrees with the ledger \<open>m\<close>: a registered room is a non-empty list
  without repetition of exactly the connections the ledger puts in it; a connection
  of the ledger has its room in its \<^verbatim>\<open>roomId\<close> variable; the only rooms of the ledger
  that are not registered are those whose name \<^verbatim>\<open>Object.prototype\<close> defines, and
  these never are.
\<close>

definition consistent :: "relay \<Rightarrow> (conn \<rightharpoonup> string) \<Rightarrow> bool" where
  "consistent s m \<longleftrightarrow>
     (\<forall>r cs. rooms s r = Some cs \<longrightarrow>
        cs \<noteq> [] \<and> distinct cs \<and> set cs = {c. m c = Some r}) \<and>
     (\<forall>c r. m c = Some r \<longrightarrow> roomId (vars s c) = r \<and> r \<noteq> '''') \<and>
     (\<forall>r. rooms s r = None \<and> r \<notin> set object_prototype_keys \<longrightarrow> (\<forall>c. m c \<noteq> Some r)) \<and>
     (\<forall>r. r \<in> set object_prototype_keys \<longrightarrow> rooms s r = None)"

text \<open>The \<^verbatim>\<open>room_info\<close> messages among some sends.\<close>

fun is_room_info :: "out_msg \<Rightarrow> bool" where
  "is_room_info (RoomInfo r n t) = True"
| "is_room_info m = False"

definition room_infos :: "(conn \<times> out_msg) list \<Rightarrow> (conn \<times> out_msg) list" where
  "room_infos ds = filter (\<lambda>d. is_room_info (snd d)) ds"

text \<open>
  A malformed or out-of-context event: an undecodable payload, an unknown type, or a
  code update or chat message on a connection whose recorded room is not registered.
\<close>

fun out_of_context :: "relay \<Rightarrow> conn \<Rightarrow> in_event \<Rightarrow> bool" where
  "out_of_context s ws Undecodable = True"
| "out_of_context s ws (UnknownType t) = True"
| "out_of_context s ws (CodeUpdate rid code language uid uname) =
     (rooms s (roomId (vars s ws)) = None)"
| "out_of_context s ws (ChatMessage rid message uid uname) =
     (rooms s (roomId (vars s ws)) = None)"
| "out_of_context s ws (Join rid uid uname) = False"

section \<open>Concrete transports, states and runs\<close>

text \<open>A transport with every connection open and no failing send.\<close>

definition all_open :: env where
  "all_open = \<lparr>readyState = (\<lambda>c. 1), sendThrows = (\<lambda>c. False), clock = (\<lambda>i. ''t'')\<rparr>"

text \<open>Every connection open, and the send to connection 1 throws.\<close>

definition first_throws :: env where
  "first_throws =
     \<lparr>readyState = (\<lambda>c. 1), sendThrows = (\<lambda>c. c = 1), clock = (\<lambda>i. ''t'')\<rparr>"

text \<open>Connection 1 is closing and its send would throw; the others are open.\<close>

definition first_closing :: env where
  "first_closing =
     \<lparr>readyState = (\<lambda>c. if c = 1 then 2 else 1), sendThrows = (\<lambda>c. c = 1),
      clock = (\<lambda>i. ''t'')\<rparr>"

text \<open>Connection 1 (user 7) alone in room \<open>r\<close>.\<close>

definition one_in_r :: relay where
  "one_in_r =
     \<lparr>rooms = [''r'' \<mapsto> [1]],
      vars = (\<lambda>c. init_vars)(1 := \<lparr>roomId = ''r'', userId = 7\<rparr>)\<rparr>"

text \<open>Connection 1 (user 7) and connection 2 (user 8) have joined room \<open>r\<close>.\<close>

definition two_in_r :: relay where
  "two_in_r =
     \<lparr>rooms = [''r'' \<mapsto> [1, 2]],
      vars = (\<lambda>c. init_vars)
        (1 := \<lparr>roomId = ''r'', userId = 7\<rparr>, 2 := \<lparr>roomId = ''r'', userId = 8\<rparr>)\<rparr>"

text \<open>Room \<open>r\<close> with connections 1 and 2, and room \<open>q\<close> with connection 3.\<close>

definition two_rooms :: relay where
  "two_rooms =
     \<lparr>rooms = [''r'' \<mapsto> [1, 2], ''q'' \<mapsto> [3]],
      vars = (\<lambda>c. init_vars)
        (1 := \<lparr>roomId = ''r'', userId = 7\<rparr>, 2 := \<lparr>roomId = ''r'', userId = 8\<rparr>,
         3 := \<lparr>roomId = ''q'', userId = 9\<rparr>)\<rparr>"

text \<open>
  Connections 1 and 2 join \<open>r\<close>, connection 3 joins \<open>q\<close> (while the send to
  connection 1 throws), then connection 1 closes.
\<close>

definition three_join_one_leaves :: "(env \<times> op) list" where
  "three_join_one_leaves =
     [(all_open, OpMessage 1 (Join ''r'' 7 ''alice'')),
      (all_open, OpMessage 2 (Join ''r'' 8 ''bob'')),
      (first_throws, OpMessage 3 (Join ''q'' 9 ''carol'')),
      (all_open, OpClose 1)]"

text \<open>Connection 1 joins \<open>a\<close> and then \<open>b\<close>.\<close>

definition double_join :: "(env \<times> op) list" where
  "double_join =
     [(all_open, OpMessage 1 (Join ''a'' 7 ''alice'')),
      (all_open, OpMessage 1 (Join ''b'' 7 ''alice''))]"

text \<open>Connection 1 joins \<open>a\<close>, connection 2 joins \<open>b\<close>, connection 1 joins \<open>a\<close> again.\<close>

definition rejoin_same :: "(env \<times> op) list" where
  "rejoin_same =
     [(all_open, OpMessage 1 (Join ''a'' 7 ''alice'')),
      (all_open, OpMessage 2 (Join ''b'' 8 ''bob'')),
      (all_open, OpMessage 1 (Join ''a'' 7 ''alice''))]"

section \<open>The registry and the sets\<close>

lemma rooms_get_Some [simp]: "rs k = Some cs \<Longrightarrow> rooms_get rs k = RoomSet cs"
  by (simp add: rooms_get_def)

lemma rooms_get_RoomSet: "rooms_get rs k = RoomSet cs \<longleftrightarrow> rs k = Some cs"
  by (simp add: rooms_get_def split: option.splits)

lemma not_proto_r: "''r'' \<notin> set object_prototype_keys"
  by (simp add: object_prototype_keys_def)

lemma set_add_set: "set (set_add c cs) = insert c (set cs)"
  by (auto simp: set_add_def)

lemma set_add_distinct: "distinct cs \<Longrightarrow> distinct (set_add c cs)"
  by (auto simp: set_add_def)

lemma set_add_nonempty: "set_add c cs \<noteq> []"
  by (auto simp: set_add_def)

section \<open>The broadcast loop\<close>

text \<open>
  The loop compares the connection object with the user id it was given, and an
  object is never \<^verbatim>\<open>===\<close> a number: passing a user id excludes nobody.
\<close>

lemma forEach_send_exclusion: "forEach_send e m (JNum uid) cs = forEach_send e m JNull cs"
  by (induction cs) auto

text \<open>With no throwing send among the open members, every open member is sent to.\<close>

lemma forEach_send_all:
  "\<forall>c\<in>set cs. is_open e c \<longrightarrow> \<not> sendThrows e c \<Longrightarrow>
   forEach_send e m JNull cs = (map (\<lambda>c. (c, m)) (filter (is_open e) cs), False)"
  by (induction cs) (auto simp: is_open_def)

text \<open>The first throwing send to an open member ends the loop.\<close>

lemma forEach_send_abort:
  "\<forall>c\<in>set pre. is_open e c \<longrightarrow> \<not> sendThrows e c \<Longrightarrow> is_open e c \<Longrightarrow> sendThrows e c \<Longrightarrow>
   forEach_send e m JNull (pre @ c # post) =
     (map (\<lambda>c. (c, m)) (filter (is_open e) pre), True)"
  by (induction pre) (auto simp: is_open_def)

lemma forEach_send_recipients:
  "(c, m') \<in> set (fst (forEach_send e m ex cs)) \<Longrightarrow> c \<in> set cs \<and> m' = m \<and> is_open e c"
  by (induction cs) (auto simp: is_open_def split: if_splits prod.splits)

lemma broadcast_recipients:
  "d \<in> set (fst (broadcastToRoom e rs rid m ex)) \<Longrightarrow>
   \<exists>cs. rs rid = Some cs \<and> fst d \<in> set cs"
proof (cases "rooms_get rs rid")
  case (RoomSet cs)
  assume "d \<in> set (fst (broadcastToRoom e rs rid m ex))"
  with RoomSet have "(fst d, snd d) \<in> set (fst (forEach_send e m ex cs))"
    by (simp add: broadcastToRoom_def)
  then have "fst d \<in> set cs" by (blast dest: forEach_send_recipients)
  with RoomSet show ?thesis by (simp add: rooms_get_RoomSet)
qed (simp_all add: broadcastToRoom_def)

lemma broadcast_empty: "rs rid = Some [] \<Longrightarrow> broadcastToRoom e rs rid m ex = ([], False)"
  by (simp add: broadcastToRoom_def)

lemma room_infos_forEach:
  "room_infos (fst (forEach_send e (UserJoined uid uname t) ex cs)) = []"
  by (induction cs) (auto simp: room_infos_def split: prod.splits)

lemma room_infos_broadcast:
  "room_infos (fst (broadcastToRoom e rs r (UserJoined uid uname t) ex)) = []"
  by (cases "rooms_get rs r")
     (simp_all add: broadcastToRoom_def room_infos_forEach, simp_all add: room_infos_def)

section \<open>What each listener does to the state\<close>

lemma join_rooms:
  "rooms (relay_of (on_message e c (Join r uid uname) s)) =
     (case rooms s r of
        Some cs \<Rightarrow> (rooms s)(r \<mapsto> set_add c cs)
      | None \<Rightarrow> if r \<in> set object_prototype_keys then rooms s else (rooms s)(r \<mapsto> [c]))"
  by (auto simp: on_message_def join_branch_def rooms_get_def Let_def set_add_def
      split: option.splits prod.splits)

lemma join_vars:
  "vars (relay_of (on_message e c (Join r uid uname) s)) =
     (vars s)(c := \<lparr>roomId = r, userId = uid\<rparr>)"
  by (auto simp: on_message_def join_branch_def rooms_get_def Let_def
      split: option.splits prod.splits)

lemma other_events_keep_state:
  "\<forall>r uid uname. ev \<noteq> Join r uid uname \<Longrightarrow> relay_of (on_message e c ev s) = s"
  by (cases ev) (auto simp: on_message_def split: prod.splits)

lemma close_vars: "vars (relay_of (on_close e c s)) = vars s"
  by (auto simp: on_close_def Let_def split: lookup.splits prod.splits)

lemma close_rooms:
  "rooms (relay_of (on_close e c s)) =
     (if roomId (vars s c) = '''' then rooms s
      else case rooms s (roomId (vars s c)) of
             None \<Rightarrow> rooms s
           | Some cs \<Rightarrow>
               if removeAll c cs = [] then (rooms s)(roomId (vars s c) := None)
               else (rooms s)(roomId (vars s c) \<mapsto> removeAll c cs))"
  by (auto simp: on_close_def Let_def rooms_get_def set_delete_def broadcast_empty
      split: option.splits prod.splits)

lemma close_twice_rooms:
  "rooms (relay_of (on_close e' c (relay_of (on_close e c s)))) = rooms (relay_of (on_close e c s))"
proof -
  have "rooms (relay_of (on_close e' c (relay_of (on_close e c s)))) =
     (if roomId (vars s c) = '''' then rooms (relay_of (on_close e c s))
      else case rooms (relay_of (on_close e c s)) (roomId (vars s c)) of
             None \<Rightarrow> rooms (relay_of (on_close e c s))
           | Some cs \<Rightarrow>
               if removeAll c cs = [] then (rooms (relay_of (on_close e c s)))(roomId (vars s c) := None)
               else (rooms (relay_of (on_close e c s)))(roomId (vars s c) \<mapsto> removeAll c cs))"
    by (subst close_rooms) (simp only: close_vars)
  then show ?thesis
    by (simp add: close_rooms [of e c s] split: option.splits if_splits)
qed

section \<open>The registry agrees with the joins and leaves\<close>

lemma consistent_init: "consistent init_relay Map.empty"
  by (simp add: consistent_def init_relay_def)

lemma consistent_join:
  assumes inv: "consistent s m" and ok: "r \<noteq> ''''" "m c = None \<or> m c = Some r"
  shows "consistent (relay_of (on_message e c (Join r uid uname) s)) (m(c \<mapsto> r))"
proof (cases "r \<in> set object_prototype_keys")
  case True
  with inv have none: "rooms s r = None" by (simp add: consistent_def)
  from inv ok show ?thesis
    unfolding consistent_def join_rooms join_vars using True none
    by (auto split: if_splits)
next
  case False
  show ?thesis
  proof (cases "rooms s r")
    case None
    with inv False have empty: "\<forall>c'. m c' \<noteq> Some r" by (simp add: consistent_def)
    from inv ok show ?thesis
      unfolding consistent_def join_rooms join_vars using False None empty
      by (auto split: if_splits)
  next
    case (Some cs)
    from inv ok show ?thesis
      unfolding consistent_def join_rooms join_vars using False Some
      by (auto simp: set_add_set set_add_distinct set_add_nonempty split: if_splits)
  qed
qed

lemma consistent_close:
  assumes inv: "consistent s m"
  shows "consistent (relay_of (on_close e c s)) (m(c := None))"
proof (cases "roomId (vars s c) = '''' \<or> rooms s (roomId (vars s c)) = None")
  case True
  then have same: "rooms (relay_of (on_close e c s)) = rooms s"
    by (auto simp: close_rooms)
  have "m c = None \<or> (\<exists>r. m c = Some r \<and> r \<in> set object_prototype_keys)"
  proof (cases "m c")
    case None
    then show ?thesis by simp
  next
    case (Some r)
    with inv have r: "roomId (vars s c) = r" "r \<noteq> ''''" by (auto simp: consistent_def)
    with True have "rooms s r = None" by auto
    with inv Some have "r \<in> set object_prototype_keys"
      unfolding consistent_def by blast
    with Some show ?thesis by simp
  qed
  with inv show ?thesis
    unfolding consistent_def same close_vars
    by (auto split: if_splits)
next
  case False
  then obtain cs where nz: "roomId (vars s c) \<noteq> ''''"
    and cs: "rooms s (roomId (vars s c)) = Some cs"
    by auto
  from inv cs have csp: "cs \<noteq> []" "distinct cs"
    "set cs = {c'. m c' = Some (roomId (vars s c))}"
    by (auto simp: consistent_def)
  from inv have one: "\<And>r. m c = Some r \<Longrightarrow> r = roomId (vars s c)"
    by (auto simp: consistent_def)
  from inv cs have np: "roomId (vars s c) \<notin> set object_prototype_keys"
    unfolding consistent_def by force
  show ?thesis
  proof (cases "removeAll c cs = []")
    case True
    then have sub: "set cs \<subseteq> {c}"
    proof -
      from True have "set cs - {c} = {}" by (metis set_removeAll set_empty)
      then show ?thesis by blast
    qed
    have rs: "rooms (relay_of (on_close e c s)) = (rooms s)(roomId (vars s c) := None)"
      using nz cs True by (simp add: close_rooms)
    from inv sub csp one show ?thesis
      unfolding consistent_def rs close_vars
      by (auto split: if_splits)
  next
    case False
    have rs: "rooms (relay_of (on_close e c s)) =
        (rooms s)(roomId (vars s c) \<mapsto> removeAll c cs)"
      using nz cs False by (simp add: close_rooms)
    from inv csp one False np show ?thesis
      unfolding consistent_def rs close_vars
      by (auto simp: distinct_removeAll split: if_splits)
  qed
qed

lemma consistent_step:
  "consistent s m \<Longrightarrow> join_allowed m a \<Longrightarrow> consistent (apply_op e a s) (ledger_step m a)"
proof (cases a)
  case (OpMessage c ev)
  assume "consistent s m" "join_allowed m a"
  with OpMessage show ?thesis
    by (cases ev) (auto simp: consistent_join other_events_keep_state)
next
  case (OpClose c)
  assume "consistent s m"
  with OpClose show ?thesis by (simp add: consistent_close)
qed

lemma consistent_run:
  "consistent s m \<Longrightarrow> joins_allowed m (map snd steps) \<Longrightarrow>
   consistent (run s steps) (ledger m (map snd steps))"
proof (induction steps arbitrary: s m)
  case Nil
  then show ?case by simp
next
  case (Cons x steps)
  obtain e a where x: "x = (e, a)" by (cases x)
  with Cons.prems have "consistent (apply_op e a s) (ledger_step m a)"
    and "joins_allowed (ledger_step m a) (map snd steps)"
    by (auto intro: consistent_step)
  then have "consistent (run (apply_op e a s) steps)
      (ledger (ledger_step m a) (map snd steps))"
    by (rule Cons.IH)
  with x show ?case by simp
qed

lemma run_no_empty_id:
  "rooms s '''' = None \<Longrightarrow> nonempty_ids (map snd steps) \<Longrightarrow> rooms (run s steps) '''' = None"
proof (induction steps arbitrary: s)
  case Nil
  then show ?case by simp
next
  case (Cons x steps)
  obtain e a where x: "x = (e, a)" by (cases x)
  show ?case
  proof (cases a)
    case (OpClose c)
    with Cons.prems have "rooms (apply_op e a s) '''' = None"
      by (simp add: close_rooms split: option.splits)
    with Cons x OpClose show ?thesis by simp
  next
    case (OpMessage c ev)
    with Cons.prems x have "rooms (apply_op e a s) '''' = None"
      by (cases ev) (auto simp: join_rooms other_events_keep_state split: option.splits)
    moreover from Cons.prems x OpMessage have "nonempty_ids (map snd steps)"
      by (cases ev) simp_all
    ultimately show ?thesis using Cons.IH x by simp
  qed
qed

text \<open>No name that \<^verbatim>\<open>Object.prototype\<close> defines is ever registered.\<close>

lemma run_no_proto:
  "\<forall>r. r \<in> set object_prototype_keys \<longrightarrow> rooms s r = None \<Longrightarrow>
   r \<in> set object_prototype_keys \<Longrightarrow> rooms (run s steps) r = None"
proof (induction steps arbitrary: s)
  case Nil
  then show ?case by simp
next
  case (Cons x steps)
  obtain e a where x: "x = (e, a)" by (cases x)
  have "\<forall>r. r \<in> set object_prototype_keys \<longrightarrow> rooms (apply_op e a s) r = None"
  proof (cases a)
    case (OpClose c)
    with Cons.prems(1) show ?thesis
      by (auto simp: close_rooms split: option.splits)
  next
    case (OpMessage c ev)
    with Cons.prems(1) show ?thesis
      by (cases ev) (auto simp: join_rooms other_events_keep_state split: option.splits)
  qed
  from Cons.IH [OF this Cons.prems(2)] x show ?case by simp
qed

text \<open>
  Under the preconditions of \<open>join\<close> the two bookkeepings are one: the set counted
  for a room is the set of the connections the ledger puts in it.
\<close>

lemma joins_ok_ledger:
  "joins_ok (dom m) ops \<Longrightarrow>
   joins_allowed m ops
   \<and> joined_not_left r {c. m c = Some r} ops = {c. ledger m ops c = Some r}"
proof (induction ops arbitrary: m)
  case Nil
  then show ?case by simp
next
  case (Cons a ops)
  show ?case
  proof (cases a)
    case (OpClose c)
    have d: "dom (m(c := None)) = dom m - {c}" by auto
    have s: "{c'. (m(c := None)) c' = Some r} = {c'. m c' = Some r} - {c}" by auto
    from Cons.prems OpClose have "joins_ok (dom (m(c := None))) ops" by (simp add: d)
    from Cons.IH [OF this]
    have "joins_allowed (m(c := None)) ops"
      and "joined_not_left r ({c'. m c' = Some r} - {c}) ops =
             {c'. ledger (m(c := None)) ops c' = Some r}"
      unfolding s by blast+
    with OpClose show ?thesis by (simp del: fun_upd_apply)
  next
    case (OpMessage c ev)
    show ?thesis
    proof (cases ev)
      case (Join r' uid uname)
      with Cons.prems OpMessage have c: "m c = None" "r' \<noteq> ''''"
        "joins_ok (dom (m(c \<mapsto> r'))) ops"
        by auto
      have s: "{c'. (m(c \<mapsto> r')) c' = Some r} =
                 (if r' = r then insert c {c'. m c' = Some r} else {c'. m c' = Some r})"
        using c(1) by auto
      from Cons.IH [OF c(3)]
      have "joins_allowed (m(c \<mapsto> r')) ops"
        and "joined_not_left r (if r' = r then insert c {c'. m c' = Some r}
                                else {c'. m c' = Some r}) ops =
               {c'. ledger (m(c \<mapsto> r')) ops c' = Some r}"
        unfolding s by blast+
      with c OpMessage Join show ?thesis by (simp del: fun_upd_apply)
    qed (use Cons OpMessage in auto)
  qed
qed

lemma never_joined_vars:
  "never_joined c (map snd steps) \<Longrightarrow> vars (run s steps) c = vars s c"
proof (induction steps arbitrary: s)
  case Nil
  then show ?case by simp
next
  case (Cons x steps)
  obtain e a where x: "x = (e, a)" by (cases x)
  show ?case
  proof (cases a)
    case (OpClose c')
    with Cons x show ?thesis by (simp add: close_vars)
  next
    case (OpMessage c' ev)
    with Cons x show ?thesis
      by (cases ev) (simp_all add: join_vars other_events_keep_state)
  qed
qed

section \<open>Sends of a join and of a leave\<close>

lemma nonempty_join:
  "nonempty_rooms s \<Longrightarrow> nonempty_rooms (relay_of (on_message e ws (Join r uid uname) s))"
  unfolding nonempty_rooms_def join_rooms
  by (auto simp: set_add_nonempty split: option.splits if_splits)

lemma nonempty_message:
  "nonempty_rooms s \<Longrightarrow> nonempty_rooms (relay_of (on_message e ws ev s))"
  by (cases ev) (simp_all add: nonempty_join other_events_keep_state)

lemma nonempty_close:
  "nonempty_rooms s \<Longrightarrow> nonempty_rooms (relay_of (on_close e ws s))"
  unfolding nonempty_rooms_def close_rooms
  by (auto split: option.splits if_splits)

lemma join_fresh_room:
  assumes "rooms s r = None" and "r \<notin> set object_prototype_keys" and "\<not> sendThrows e b"
  shows "rooms (relay_of (on_message e b (Join r uid uname) s)) r = Some [b]
         \<and> room_infos (sends (on_message e b (Join r uid uname) s))
             = [(b, RoomInfo r 1 (clock e 1))]"
proof -
  have g: "rooms_get (rooms s) r = Absent" using assms by (simp add: rooms_get_def)
  have f: "forEach_send e (UserJoined uid uname (clock e 0)) (JNum uid) [b]
             = ((if is_open e b then [(b, UserJoined uid uname (clock e 0))] else []), False)"
    using assms(3) by (simp add: is_open_def)
  show ?thesis
    using assms g
    by (simp add: on_message_def join_branch_def broadcastToRoom_def set_add_def f
        room_infos_def del: forEach_send.simps)
qed

lemma join_room_infos_cases:
  "room_infos (sends (on_message e ws (Join r uid uname) s)) = []
   \<or> (\<exists>cs'. rooms (relay_of (on_message e ws (Join r uid uname) s)) r = Some cs'
        \<and> ws \<in> set cs'
        \<and> room_infos (sends (on_message e ws (Join r uid uname) s))
            = [(ws, RoomInfo r (length cs') (clock e 1))])"
proof -
  let ?s1 = "s\<lparr>vars := (vars s)(ws := \<lparr>roomId = r, userId = uid\<rparr>)\<rparr>"
  let ?s2 = "if rooms_get (rooms ?s1) r = Absent
             then ?s1\<lparr>rooms := (rooms ?s1)(r \<mapsto> [])\<rparr> else ?s1"
  show ?thesis
  proof (cases "rooms_get (rooms ?s2) r")
    case (RoomSet cs)
    let ?rs3 = "(rooms ?s2)(r \<mapsto> set_add ws cs)"
    obtain ds t where
      b: "broadcastToRoom e ?rs3 r (UserJoined uid uname (clock e 0)) (JNum uid) = (ds, t)"
      by (cases "broadcastToRoom e ?rs3 r (UserJoined uid uname (clock e 0)) (JNum uid)")
    from room_infos_broadcast [of e ?rs3 r uid uname "clock e 0" "JNum uid"] b
    have n: "room_infos ds = []" by simp
    from RoomSet b n show ?thesis
      by (auto simp: on_message_def join_branch_def Let_def room_infos_def set_add_set
          split: if_splits)
  qed (auto simp: on_message_def join_branch_def Let_def room_infos_def)
qed

lemma join_sends:
  assumes np: "r \<notin> set object_prototype_keys" and me: "\<not> sendThrows e ws"
    and others: "\<forall>cs. rooms s r = Some cs \<longrightarrow>
                   (\<forall>c\<in>set cs. is_open e c \<longrightarrow> \<not> sendThrows e c)"
    and cs': "cs' = set_add ws (case rooms s r of None \<Rightarrow> [] | Some cs \<Rightarrow> cs)"
  shows "rooms (relay_of (on_message e ws (Join r uid uname) s)) r = Some cs'
    \<and> sends (on_message e ws (Join r uid uname) s) =
        map (\<lambda>c. (c, UserJoined uid uname (clock e 0))) (filter (is_open e) cs')
        @ [(ws, RoomInfo r (length cs') (clock e 1))]"
proof -
  have nt: "\<forall>c\<in>set cs'. is_open e c \<longrightarrow> \<not> sendThrows e c"
    using me others cs' by (auto simp: set_add_set split: option.splits)
  have f: "forEach_send e (UserJoined uid uname (clock e 0)) (JNum uid) cs' =
     (map (\<lambda>c. (c, UserJoined uid uname (clock e 0))) (filter (is_open e) cs'), False)"
    by (simp only: forEach_send_exclusion forEach_send_all [OF nt])
  show ?thesis
    using np me f cs'
    by (cases "rooms s r")
       (simp_all add: on_message_def join_branch_def Let_def rooms_get_def
          broadcastToRoom_def del: forEach_send.simps)
qed

lemma close_sends:
  assumes nz: "roomId (vars s ws) \<noteq> ''''" and cs: "rooms s (roomId (vars s ws)) = Some cs"
    and ok: "\<forall>c\<in>set (set_delete ws cs). is_open e c \<longrightarrow> \<not> sendThrows e c"
  shows "sends (on_close e ws s) =
           map (\<lambda>c. (c, UserLeft (userId (vars s ws)) (clock e 0)))
             (filter (is_open e) (set_delete ws cs))
         \<and> \<not> escaped (on_close e ws s)"
  using nz cs forEach_send_all [OF ok]
  by (simp add: on_close_def Let_def broadcastToRoom_def rooms_get_def)

lemma out_of_context_dropped:
  "out_of_context s ws ev \<Longrightarrow>
   relay_of (on_message e ws ev s) = s \<and> sends (on_message e ws ev s) = []
   \<and> \<not> escaped (on_message e ws ev s) \<and> closes (on_message e ws ev s) = []"
  by (cases ev)
     (auto simp: on_message_def broadcastToRoom_def rooms_get_def split: prod.splits)

section \<open>The claims\<close>

subsection \<open>C1: the originator of a broadcast\<close>

text \<open>
  C1. The claim: a \<^verbatim>\<open>code_update\<close> is delivered to every other open member of the
  room but never back to its sender, and the \<^verbatim>\<open>user_joined\<close> of a join is never
  delivered to the joiner. The code does otherwise: with connections 1 and 2 in room
  \<open>r\<close>, a code update sent on connection 1 is sent to connection 1 as well as to
  connection 2; and a connection that joins is sent its own \<^verbatim>\<open>user_joined\<close> before
  its \<^verbatim>\<open>room_info\<close>.
\<close>

theorem originator_is_not_excluded:
  "sends (on_message all_open 1 (CodeUpdate ''r'' ''x'' ''py'' 7 ''alice'') two_in_r) =
     [(1, CodeUpdateMsg ''x'' ''py'' 7 ''alice'' ''t''),
      (2, CodeUpdateMsg ''x'' ''py'' 7 ''alice'' ''t'')]
   \<and> sends (on_message all_open 1 (Join ''r'' 7 ''alice'') init_relay) =
     [(1, UserJoined 7 ''alice'' ''t''), (1, RoomInfo ''r'' 1 ''t'')]"
  by (simp add: on_message_def join_branch_def broadcastToRoom_def rooms_get_def
      two_in_r_def init_relay_def all_open_def set_add_def object_prototype_keys_def)

subsection \<open>C2: a chat message reaches its sender too\<close>

text \<open>
  C2. A \<^verbatim>\<open>chat_message\<close> sent on a connection that is a member of the room recorded
  for it is sent to every open member of that room, in the room's order, the sender
  included: no exclusion is applied. The transport is one whose send to an open
  member of the room does not throw.
\<close>

theorem chat_message_reaches_all_open_members:
  assumes "rooms s (roomId (vars s ws)) = Some cs"
    and "ws \<in> set cs"
    and "\<forall>c\<in>set cs. is_open e c \<longrightarrow> \<not> sendThrows e c"
  shows "sends (on_message e ws (ChatMessage rid message uid uname) s) =
           map (\<lambda>c. (c, ChatMessageMsg message uid uname (clock e 0)))
             (filter (is_open e) cs)
         \<and> (is_open e ws \<longrightarrow>
              (ws, ChatMessageMsg message uid uname (clock e 0))
                \<in> set (sends (on_message e ws (ChatMessage rid message uid uname) s)))"
  using assms by (auto simp: on_message_def broadcastToRoom_def forEach_send_all)

theorem chat_message_reaches_all_open_members_witness:
  "rooms two_in_r (roomId (vars two_in_r 1)) = Some [1, 2] \<and> 1 \<in> set [1, 2::nat]
   \<and> is_open all_open 1 \<and> is_open all_open 2
   \<and> \<not> sendThrows all_open 1 \<and> \<not> sendThrows all_open 2
   \<and> sends (on_message all_open 1 (ChatMessage ''zzz'' ''hi'' 7 ''alice'') two_in_r) =
       [(1, ChatMessageMsg ''hi'' 7 ''alice'' ''t''),
        (2, ChatMessageMsg ''hi'' 7 ''alice'' ''t'')]"
proof -
  have a: "rooms two_in_r (roomId (vars two_in_r 1)) = Some [1, 2]"
    by (simp add: two_in_r_def)
  have b: "(1::nat) \<in> set [1, 2]" by simp
  have c: "\<forall>c\<in>set [1, 2::nat]. is_open all_open c \<longrightarrow> \<not> sendThrows all_open c"
    by (simp add: all_open_def)
  show ?thesis
    using a b
      chat_message_reaches_all_open_members [OF a b c, of "''zzz''" "''hi''" 7 "''alice''"]
    by (simp add: is_open_def all_open_def)
qed

subsection \<open>C3: no empty room stays registered\<close>

text \<open>
  C3. No registered room is empty: the initial registry has no room, and every
  listener call, on any connection and with any event, keeps every registered room
  non-empty. In a state reached from the empty registry, when the removal of the
  leaving connection empties its room, the close listener deletes the room's entry
  at once; a join of the same room identifier then registers it anew with the joiner
  as its only member, and the joiner's one \<^verbatim>\<open>room_info\<close> reports
  \<^verbatim>\<open>userCount\<close> 1 (the send to the joiner does not throw).
\<close>

theorem empty_rooms_never_persist:
  "nonempty_rooms init_relay
   \<and> (nonempty_rooms s \<longrightarrow>
        nonempty_rooms (relay_of (on_message e ws ev s))
        \<and> nonempty_rooms (relay_of (on_close e ws s)))
   \<and> (s = run init_relay steps
        \<and> roomId (vars s ws) = r \<and> r \<noteq> '''' \<and> rooms s r = Some cs \<and> set_delete ws cs = []
        \<and> \<not> sendThrows e' b \<longrightarrow>
        rooms (relay_of (on_close e ws s)) r = None
        \<and> rooms (relay_of (on_message e' b (Join r uid uname) (relay_of (on_close e ws s)))) r
            = Some [b]
        \<and> room_infos (sends (on_message e' b (Join r uid uname) (relay_of (on_close e ws s))))
            = [(b, RoomInfo r 1 (clock e' 1))])"
proof (intro conjI impI)
  show "nonempty_rooms init_relay" by (simp add: nonempty_rooms_def init_relay_def)
next
  assume "nonempty_rooms s"
  then show "nonempty_rooms (relay_of (on_message e ws ev s))" by (rule nonempty_message)
next
  assume "nonempty_rooms s"
  then show "nonempty_rooms (relay_of (on_close e ws s))" by (rule nonempty_close)
next
  assume h: "s = run init_relay steps
        \<and> roomId (vars s ws) = r \<and> r \<noteq> '''' \<and> rooms s r = Some cs
        \<and> set_delete ws cs = [] \<and> \<not> sendThrows e' b"
  have "r \<in> set object_prototype_keys \<Longrightarrow> rooms (run init_relay steps) r = None"
    by (rule run_no_proto) (simp_all add: init_relay_def)
  with h have np: "r \<notin> set object_prototype_keys" by auto
  from h have "roomId (vars s ws) = r" "r \<noteq> ''''" "rooms s r = Some cs"
    "set_delete ws cs = []" by blast+
  then have gone: "rooms (relay_of (on_close e ws s)) r = None"
    by (simp add: close_rooms set_delete_def)
  show "rooms (relay_of (on_close e ws s)) r = None" by (rule gone)
  from join_fresh_room [OF gone np, of e' b uid uname] h
  show "rooms (relay_of (on_message e' b (Join r uid uname) (relay_of (on_close e ws s)))) r
            = Some [b]"
    and "room_infos (sends (on_message e' b (Join r uid uname) (relay_of (on_close e ws s))))
            = [(b, RoomInfo r 1 (clock e' 1))]"
    by simp_all
qed

theorem empty_rooms_never_persist_witness:
  "nonempty_rooms init_relay
   \<and> nonempty_rooms (run init_relay three_join_one_leaves)
   \<and> nonempty_rooms (relay_of (on_close all_open 2 (run init_relay three_join_one_leaves)))
   \<and> rooms (run init_relay three_join_one_leaves) ''r'' = Some [2]
   \<and> rooms (relay_of (on_close all_open 2 (run init_relay three_join_one_leaves))) ''r''
       = None
   \<and> room_infos (sends (on_message all_open 4 (Join ''r'' 5 ''dan'')
        (relay_of (on_close all_open 2 (run init_relay three_join_one_leaves)))))
       = [(4, RoomInfo ''r'' 1 ''t'')]"
proof -
  let ?s = "run init_relay three_join_one_leaves"
  have rs: "rooms ?s = [''q'' \<mapsto> [3], ''r'' \<mapsto> [2]]"
    by (simp add: three_join_one_leaves_def join_rooms join_vars close_rooms close_vars
        init_relay_def init_vars_def set_add_def object_prototype_keys_def)
  have vs: "roomId (vars ?s 2) = ''r''"
    by (simp add: three_join_one_leaves_def join_vars close_vars init_relay_def)
  have n: "nonempty_rooms ?s"
    unfolding nonempty_rooms_def rs by simp
  have h: "?s = run init_relay three_join_one_leaves
        \<and> roomId (vars ?s 2) = ''r'' \<and> ''r'' \<noteq> '''' \<and> rooms ?s ''r'' = Some [2]
        \<and> set_delete 2 [2] = [] \<and> \<not> sendThrows all_open 4"
    unfolding rs vs by (simp add: set_delete_def all_open_def)
  from empty_rooms_never_persist [where s = ?s and e = all_open and ws = 2
      and ev = Undecodable and r = "''r''" and cs = "[2]" and e' = all_open and b = 4
      and uid = 5 and uname = "''dan''" and steps = three_join_one_leaves]
  show ?thesis using h n by (simp add: all_open_def)
qed

subsection \<open>C4: the size of a room\<close>

text \<open>
  C4. After any sequence of listener calls from the empty registry in which every
  join meets the preconditions of \<open>join\<close> (a non-empty room identifier, a participant
  not registered in any room), every registered room holds, each once, exactly the
  connections that joined it and have not since left it: its size is their number.
\<close>

theorem room_size_counts_joined_not_left:
  assumes "joins_ok {} (map snd steps)" and "rooms (run init_relay steps) r = Some cs"
  shows "distinct cs \<and> set cs = joined_not_left r {} (map snd steps)
         \<and> length cs = card (joined_not_left r {} (map snd steps))"
proof -
  let ?ops = "map snd steps"
  from assms(1) have ok: "joins_ok (dom (Map.empty :: conn \<rightharpoonup> string)) ?ops" by simp
  from joins_ok_ledger [OF ok, of r]
  have a: "joins_allowed Map.empty ?ops"
    and b: "joined_not_left r {} ?ops = {c. ledger Map.empty ?ops c = Some r}" by auto
  from consistent_run [OF consistent_init a] assms(2)
  have "distinct cs" "set cs = {c. ledger Map.empty ?ops c = Some r}"
    by (auto simp: consistent_def)
  with b show ?thesis by (metis distinct_card)
qed

theorem room_size_counts_joined_not_left_witness:
  "joins_ok {} (map snd three_join_one_leaves)
   \<and> rooms (run init_relay three_join_one_leaves) ''r'' = Some [2]
   \<and> joined_not_left ''r'' {} (map snd three_join_one_leaves) = {2}
   \<and> length [2::nat] = card (joined_not_left ''r'' {} (map snd three_join_one_leaves))"
proof -
  have a: "joins_ok {} (map snd three_join_one_leaves)"
    by (simp add: three_join_one_leaves_def)
  have b: "rooms (run init_relay three_join_one_leaves) ''r'' = Some [2]"
    by (simp add: three_join_one_leaves_def join_rooms join_vars close_rooms close_vars
        init_relay_def init_vars_def set_add_def object_prototype_keys_def)
  from room_size_counts_joined_not_left [OF a b] a b show ?thesis by simp
qed

subsection \<open>C5: one room for a connection\<close>

text \<open>
  C5. The claim: at every reachable state a connection is a member of at most one
  room, and a second join on a registered connection does not leave it registered in
  two rooms. The code does otherwise: a join that names another room than the one the
  connection is in adds the connection to the new room and leaves it in the old one.
\<close>

theorem double_join_registers_in_two_rooms:
  "rooms (run init_relay double_join) ''a'' = Some [1]
   \<and> rooms (run init_relay double_join) ''b'' = Some [1]"
  by (simp add: double_join_def join_rooms join_vars init_relay_def set_add_def
      object_prototype_keys_def)

text \<open>
  C5, amended. After any sequence of listener calls from the empty registry in which
  no join arrives on a connection registered in a different room (and room
  identifiers are non-empty), a connection is a member of at most one room. A join
  that names the room the connection is already a member of leaves the registry as
  it is, and no join lets an exception leave the listener.
\<close>

theorem one_room_per_connection:
  "(joins_allowed Map.empty (map snd steps)
      \<and> rooms (run init_relay steps) r1 = Some cs1 \<and> c \<in> set cs1
      \<and> rooms (run init_relay steps) r2 = Some cs2 \<and> c \<in> set cs2 \<longrightarrow> r1 = r2)
   \<and> (rooms s r = Some cs \<and> ws \<in> set cs \<longrightarrow>
        rooms (relay_of (on_message e ws (Join r uid uname) s)) = rooms s)
   \<and> \<not> escaped (on_message e ws (Join r uid uname) s)"
proof (intro conjI impI)
  assume h: "joins_allowed Map.empty (map snd steps)
      \<and> rooms (run init_relay steps) r1 = Some cs1 \<and> c \<in> set cs1
      \<and> rooms (run init_relay steps) r2 = Some cs2 \<and> c \<in> set cs2"
  then have "consistent (run init_relay steps) (ledger Map.empty (map snd steps))"
    using consistent_run [OF consistent_init] by blast
  with h have "ledger Map.empty (map snd steps) c = Some r1"
    and "ledger Map.empty (map snd steps) c = Some r2"
    by (auto simp: consistent_def)
  then show "r1 = r2" by simp
next
  assume "rooms s r = Some cs \<and> ws \<in> set cs"
  then show "rooms (relay_of (on_message e ws (Join r uid uname) s)) = rooms s"
    by (auto simp: join_rooms set_add_def)
next
  show "\<not> escaped (on_message e ws (Join r uid uname) s)"
    by (simp add: on_message_def split: prod.splits)
qed

theorem one_room_per_connection_witness:
  "joins_allowed Map.empty (map snd rejoin_same)
   \<and> rooms (run init_relay rejoin_same) ''a'' = Some [1] \<and> 1 \<in> set [1::nat]
   \<and> rooms one_in_r ''r'' = Some [1]
   \<and> rooms (relay_of (on_message all_open 1 (Join ''r'' 7 ''alice'') one_in_r))
       = rooms one_in_r"
proof -
  have a: "joins_allowed Map.empty (map snd rejoin_same)"
    by (simp add: rejoin_same_def)
  have b: "rooms (run init_relay rejoin_same) ''a'' = Some [1]"
    by (simp add: rejoin_same_def join_rooms join_vars init_relay_def set_add_def
      object_prototype_keys_def)
  have c: "rooms one_in_r ''r'' = Some [1] \<and> 1 \<in> set [1::nat]"
    by (simp add: one_in_r_def)
  from one_room_per_connection [where steps = rejoin_same and ?r1.0 = "''a''"
      and ?cs1.0 = "[1]" and c = 1 and ?r2.0 = "''a''" and ?cs2.0 = "[1]" and s = one_in_r
      and r = "''r''" and cs = "[1]" and ws = 1 and e = all_open and uid = 7
      and uname = "''alice''"] a b c
  show ?thesis by simp
qed

subsection \<open>C6: the acknowledgment of a join\<close>

text \<open>
  C6. The claim: on every join exactly one \<^verbatim>\<open>room_info\<close> is sent, to the joiner
  only, with \<^verbatim>\<open>userCount\<close> the size of the room after the joiner has been added.
  The code does otherwise when the room identifier is a name that
  \<^verbatim>\<open>Object.prototype\<close> defines. \<^verbatim>\<open>rooms\<close> is a plain object, so
  \<^verbatim>\<open>rooms[roomId]\<close> finds the inherited value: the room is not created,
  \<^verbatim>\<open>rooms[roomId].add\<close> throws and the \<^verbatim>\<open>catch\<close> logs. A join of
  \<^verbatim>\<open>toString\<close> on a fresh connection, and a join of \<^verbatim>\<open>constructor\<close> beside a
  registered room, send nothing at all and register nothing; the name stays in the
  connection's \<^verbatim>\<open>roomId\<close> variable.
\<close>

theorem join_of_inherited_name_is_swallowed:
  "sends (on_message all_open 1 (Join ''toString'' 7 ''alice'') init_relay) = []
   \<and> logged (on_message all_open 1 (Join ''toString'' 7 ''alice'') init_relay)
   \<and> rooms (relay_of (on_message all_open 1 (Join ''toString'' 7 ''alice'') init_relay))
       = rooms init_relay
   \<and> roomId (vars (relay_of (on_message all_open 1 (Join ''toString'' 7 ''alice'')
        init_relay)) 1) = ''toString''
   \<and> sends (on_message all_open 2 (Join ''constructor'' 8 ''bob'') one_in_r) = []
   \<and> rooms (relay_of (on_message all_open 2 (Join ''constructor'' 8 ''bob'') one_in_r))
       = rooms one_in_r"
  by (simp add: on_message_def join_branch_def rooms_get_def init_relay_def one_in_r_def
      object_prototype_keys_def)

text \<open>
  For every other join the acknowledgment is as described. A join sends at most one
  \<^verbatim>\<open>room_info\<close>; it goes to the joiner and to nobody else, and its
  \<^verbatim>\<open>userCount\<close> is the size of the room after the joiner has been added. Exactly
  one is sent whenever the sends of this join do not throw and the room identifier is
  not a name that \<^verbatim>\<open>Object.prototype\<close> defines.
\<close>

theorem room_info_goes_to_joiner_only:
  "(room_infos (sends (on_message e ws (Join r uid uname) s)) = []
    \<or> (\<exists>cs'. rooms (relay_of (on_message e ws (Join r uid uname) s)) r = Some cs'
         \<and> ws \<in> set cs'
         \<and> room_infos (sends (on_message e ws (Join r uid uname) s))
             = [(ws, RoomInfo r (length cs') (clock e 1))]))
   \<and> (r \<notin> set object_prototype_keys \<and> \<not> sendThrows e ws
      \<and> (\<forall>cs. rooms s r = Some cs \<longrightarrow> (\<forall>c\<in>set cs. is_open e c \<longrightarrow> \<not> sendThrows e c))
      \<longrightarrow> (\<exists>cs'. rooms (relay_of (on_message e ws (Join r uid uname) s)) r = Some cs'
             \<and> ws \<in> set cs'
             \<and> room_infos (sends (on_message e ws (Join r uid uname) s))
                 = [(ws, RoomInfo r (length cs') (clock e 1))]))"
proof (intro conjI impI)
  show "room_infos (sends (on_message e ws (Join r uid uname) s)) = []
    \<or> (\<exists>cs'. rooms (relay_of (on_message e ws (Join r uid uname) s)) r = Some cs'
         \<and> ws \<in> set cs'
         \<and> room_infos (sends (on_message e ws (Join r uid uname) s))
             = [(ws, RoomInfo r (length cs') (clock e 1))])"
    by (rule join_room_infos_cases)
next
  assume h: "r \<notin> set object_prototype_keys \<and> \<not> sendThrows e ws
      \<and> (\<forall>cs. rooms s r = Some cs \<longrightarrow> (\<forall>c\<in>set cs. is_open e c \<longrightarrow> \<not> sendThrows e c))"
  define cs' where "cs' = set_add ws (case rooms s r of None \<Rightarrow> [] | Some cs \<Rightarrow> cs)"
  from h have a: "r \<notin> set object_prototype_keys" and b: "\<not> sendThrows e ws"
    and c: "\<forall>cs. rooms s r = Some cs \<longrightarrow> (\<forall>c\<in>set cs. is_open e c \<longrightarrow> \<not> sendThrows e c)"
    by blast+
  from join_sends [OF a b c cs'_def, of uid uname]
  have "rooms (relay_of (on_message e ws (Join r uid uname) s)) r = Some cs'"
    and "room_infos (sends (on_message e ws (Join r uid uname) s))
           = [(ws, RoomInfo r (length cs') (clock e 1))]"
    by (simp_all add: room_infos_def)
  moreover have "ws \<in> set cs'" by (simp add: cs'_def set_add_set)
  ultimately show "\<exists>cs'. rooms (relay_of (on_message e ws (Join r uid uname) s)) r = Some cs'
             \<and> ws \<in> set cs'
             \<and> room_infos (sends (on_message e ws (Join r uid uname) s))
                 = [(ws, RoomInfo r (length cs') (clock e 1))]"
    by blast
qed

theorem room_info_goes_to_joiner_only_witness:
  "''r'' \<notin> set object_prototype_keys \<and> \<not> sendThrows all_open 2 \<and> \<not> sendThrows all_open 1
   \<and> rooms one_in_r ''r'' = Some [1]
   \<and> rooms (relay_of (on_message all_open 2 (Join ''r'' 8 ''bob'') one_in_r)) ''r''
       = Some [1, 2]
   \<and> room_infos (sends (on_message all_open 2 (Join ''r'' 8 ''bob'') one_in_r))
       = [(2, RoomInfo ''r'' 2 ''t'')]"
proof -
  have a: "''r'' \<notin> set object_prototype_keys \<and> \<not> sendThrows all_open 2
      \<and> (\<forall>cs. rooms one_in_r ''r'' = Some cs \<longrightarrow>
            (\<forall>c\<in>set cs. is_open all_open c \<longrightarrow> \<not> sendThrows all_open c))"
    by (simp add: not_proto_r all_open_def one_in_r_def)
  have b: "rooms (relay_of (on_message all_open 2 (Join ''r'' 8 ''bob'') one_in_r)) ''r''
             = Some [1, 2]"
    by (simp add: join_rooms one_in_r_def set_add_def)
  from room_info_goes_to_joiner_only [of all_open 2 "''r''" 8 "''bob''" one_in_r] a b
  show ?thesis
    by (simp add: all_open_def one_in_r_def not_proto_r)
qed

subsection \<open>C7: malformed and out-of-context events\<close>

text \<open>
  C7. An undecodable payload, an event of unknown type, and a code update or chat
  message on a connection whose recorded room is not registered: the message
  listener sends nothing, lets no exception out, leaves the registry and the
  connection's variables as they are and closes no connection. A connection on which
  no join ever arrived is in that case after any sequence of listener calls from the
  empty registry whose joins name non-empty rooms: its recorded room is the empty
  string, which is then never registered.
\<close>

theorem malformed_events_are_dropped:
  "(out_of_context s ws ev \<longrightarrow>
      relay_of (on_message e ws ev s) = s \<and> sends (on_message e ws ev s) = []
      \<and> \<not> escaped (on_message e ws ev s) \<and> closes (on_message e ws ev s) = [])
   \<and> (nonempty_ids (map snd steps) \<and> never_joined ws (map snd steps) \<longrightarrow>
        rooms (run init_relay steps) (roomId (vars (run init_relay steps) ws)) = None)"
proof (intro conjI impI)
  assume "out_of_context s ws ev"
  then show "relay_of (on_message e ws ev s) = s" "sends (on_message e ws ev s) = []"
    "\<not> escaped (on_message e ws ev s)" "closes (on_message e ws ev s) = []"
    by (simp_all add: out_of_context_dropped)
next
  assume h: "nonempty_ids (map snd steps) \<and> never_joined ws (map snd steps)"
  then have "vars (run init_relay steps) ws = init_vars"
    by (simp add: never_joined_vars init_relay_def)
  moreover from h have "rooms (run init_relay steps) '''' = None"
    by (simp add: run_no_empty_id init_relay_def)
  ultimately show "rooms (run init_relay steps) (roomId (vars (run init_relay steps) ws)) = None"
    by (simp add: init_vars_def)
qed

theorem malformed_events_are_dropped_witness:
  "out_of_context (run init_relay three_join_one_leaves) 4
      (CodeUpdate ''r'' ''x'' ''py'' 5 ''dan'')
   \<and> relay_of (on_message all_open 4 (CodeUpdate ''r'' ''x'' ''py'' 5 ''dan'')
        (run init_relay three_join_one_leaves)) = run init_relay three_join_one_leaves
   \<and> sends (on_message all_open 4 (CodeUpdate ''r'' ''x'' ''py'' 5 ''dan'')
        (run init_relay three_join_one_leaves)) = []
   \<and> \<not> escaped (on_message all_open 4 (CodeUpdate ''r'' ''x'' ''py'' 5 ''dan'')
        (run init_relay three_join_one_leaves))
   \<and> nonempty_ids (map snd three_join_one_leaves)
   \<and> never_joined 4 (map snd three_join_one_leaves)
   \<and> sends (on_message all_open 1 Undecodable two_in_r) = []
   \<and> sends (on_message all_open 1 (UnknownType ''ping'') two_in_r) = []"
proof -
  have a: "nonempty_ids (map snd three_join_one_leaves)
      \<and> never_joined 4 (map snd three_join_one_leaves)"
    by (simp add: three_join_one_leaves_def)
  have b: "out_of_context two_in_r 1 Undecodable"
    "out_of_context two_in_r 1 (UnknownType ''ping'')" by simp_all
  from malformed_events_are_dropped [of "run init_relay three_join_one_leaves" 4
      "CodeUpdate ''r'' ''x'' ''py'' 5 ''dan''" all_open three_join_one_leaves] a
  have 1: "out_of_context (run init_relay three_join_one_leaves) 4
      (CodeUpdate ''r'' ''x'' ''py'' 5 ''dan'')
   \<and> relay_of (on_message all_open 4 (CodeUpdate ''r'' ''x'' ''py'' 5 ''dan'')
        (run init_relay three_join_one_leaves)) = run init_relay three_join_one_leaves
   \<and> sends (on_message all_open 4 (CodeUpdate ''r'' ''x'' ''py'' 5 ''dan'')
        (run init_relay three_join_one_leaves)) = []
   \<and> \<not> escaped (on_message all_open 4 (CodeUpdate ''r'' ''x'' ''py'' 5 ''dan'')
        (run init_relay three_join_one_leaves))" by simp
  from malformed_events_are_dropped [of two_in_r 1 Undecodable all_open "[]"] b
  have 2: "sends (on_message all_open 1 Undecodable two_in_r) = []" by blast
  from malformed_events_are_dropped [of two_in_r 1 "UnknownType ''ping''" all_open "[]"] b
  have 3: "sends (on_message all_open 1 (UnknownType ''ping'') two_in_r) = []" by blast
  from a 1 2 3 show ?thesis by blast
qed

subsection \<open>C8: leaving\<close>

text \<open>
  C8. The claim: leave is idempotent and safe without a prior join; a close on a
  connection that is in no room is a no-op with no error. The code does otherwise
  after a join that the \<^verbatim>\<open>catch\<close> swallowed. A join of \<^verbatim>\<open>toString\<close> registers
  the connection in no room but leaves the name in its \<^verbatim>\<open>roomId\<close> variable; on
  close the guard \<^verbatim>\<open>roomId && rooms[roomId]\<close> finds the inherited value,
  \<^verbatim>\<open>rooms[roomId].delete\<close> throws, and nothing catches in the close listener: the
  exception leaves it. Nor is a close idempotent in what it sends: were the close
  listener to run again for a connection whose room still has a member, that member
  is sent \<^verbatim>\<open>user_left\<close> a second time.
\<close>

theorem close_after_swallowed_join_throws:
  "rooms (relay_of (on_message all_open 1 (Join ''toString'' 7 ''alice'') init_relay))
     = rooms init_relay
   \<and> escaped (on_close all_open 1
        (relay_of (on_message all_open 1 (Join ''toString'' 7 ''alice'') init_relay)))
   \<and> sends (on_close all_open 2 two_in_r) = [(1, UserLeft 8 ''t'')]
   \<and> sends (on_close all_open 2 (relay_of (on_close all_open 2 two_in_r)))
       = [(1, UserLeft 8 ''t'')]"
  by (simp add: on_message_def join_branch_def on_close_def Let_def broadcastToRoom_def
      rooms_get_def init_relay_def two_in_r_def all_open_def set_delete_def
      object_prototype_keys_def)

text \<open>
  The rest of what is said of leaving holds. A close on a connection on which no join
  arrived (its recorded room is the empty string), or whose recorded room has no
  entry and is not a name that \<^verbatim>\<open>Object.prototype\<close> defines, does nothing at all
  and raises nothing; a second close of the same connection leaves the registry (not
  the sends) as the first left it. When a member of a room with other members leaves,
  the listener sends one \<^verbatim>\<open>user_left\<close> with the leaver's user id to each remaining
  member (they are open and the sends to them do not throw), raises nothing, and the
  room keeps the remaining members. When the only member leaves, nothing is sent,
  nothing is raised and the room's entry is deleted.
\<close>

theorem leave_is_safe:
  "((roomId (vars s ws) = ''''
      \<or> rooms s (roomId (vars s ws)) = None
         \<and> roomId (vars s ws) \<notin> set object_prototype_keys) \<longrightarrow>
      on_close e ws s
        = \<lparr>relay_of = s, sends = [], logged = False, escaped = False, closes = []\<rparr>)
   \<and> rooms (relay_of (on_close e' ws (relay_of (on_close e ws s))))
       = rooms (relay_of (on_close e ws s))
   \<and> (roomId (vars s ws) \<noteq> '''' \<and> rooms s (roomId (vars s ws)) = Some cs
        \<and> ws \<in> set cs \<and> distinct cs \<and> set_delete ws cs \<noteq> []
        \<and> (\<forall>c\<in>set (set_delete ws cs). is_open e c \<and> \<not> sendThrows e c) \<longrightarrow>
      sends (on_close e ws s) =
        map (\<lambda>c. (c, UserLeft (userId (vars s ws)) (clock e 0))) (set_delete ws cs)
      \<and> distinct (set_delete ws cs) \<and> set (set_delete ws cs) = set cs - {ws}
      \<and> \<not> escaped (on_close e ws s)
      \<and> rooms (relay_of (on_close e ws s)) (roomId (vars s ws)) = Some (set_delete ws cs))
   \<and> (roomId (vars s ws) \<noteq> '''' \<and> rooms s (roomId (vars s ws)) = Some cs
        \<and> set_delete ws cs = [] \<longrightarrow>
      sends (on_close e ws s) = [] \<and> \<not> escaped (on_close e ws s)
      \<and> rooms (relay_of (on_close e ws s)) (roomId (vars s ws)) = None)"
proof (intro conjI impI)
  assume "roomId (vars s ws) = ''''
      \<or> rooms s (roomId (vars s ws)) = None
         \<and> roomId (vars s ws) \<notin> set object_prototype_keys"
  then show "on_close e ws s
        = \<lparr>relay_of = s, sends = [], logged = False, escaped = False, closes = []\<rparr>"
    by (auto simp: on_close_def Let_def rooms_get_def)
next
  show "rooms (relay_of (on_close e' ws (relay_of (on_close e ws s))))
       = rooms (relay_of (on_close e ws s))"
    by (rule close_twice_rooms)
next
  assume h: "roomId (vars s ws) \<noteq> '''' \<and> rooms s (roomId (vars s ws)) = Some cs
        \<and> ws \<in> set cs \<and> distinct cs \<and> set_delete ws cs \<noteq> []
        \<and> (\<forall>c\<in>set (set_delete ws cs). is_open e c \<and> \<not> sendThrows e c)"
  then have ok: "\<forall>c\<in>set (set_delete ws cs). is_open e c \<longrightarrow> \<not> sendThrows e c" by blast
  from h have all: "filter (is_open e) (set_delete ws cs) = set_delete ws cs"
    by (simp add: filter_id_conv)
  from h close_sends [OF _ _ ok] all
  show "sends (on_close e ws s) =
        map (\<lambda>c. (c, UserLeft (userId (vars s ws)) (clock e 0))) (set_delete ws cs)"
    and "\<not> escaped (on_close e ws s)"
    by simp_all
  from h show "distinct (set_delete ws cs)" "set (set_delete ws cs) = set cs - {ws}"
    by (simp_all add: set_delete_def distinct_removeAll)
  from h show "rooms (relay_of (on_close e ws s)) (roomId (vars s ws))
      = Some (set_delete ws cs)"
    by (simp add: close_rooms set_delete_def)
next
  assume h: "roomId (vars s ws) \<noteq> '''' \<and> rooms s (roomId (vars s ws)) = Some cs
        \<and> set_delete ws cs = []"
  then have ok: "\<forall>c\<in>set (set_delete ws cs). is_open e c \<longrightarrow> \<not> sendThrows e c" by simp
  from h close_sends [OF _ _ ok]
  show "sends (on_close e ws s) = []" and "\<not> escaped (on_close e ws s)"
    by simp_all
  from h show "rooms (relay_of (on_close e ws s)) (roomId (vars s ws)) = None"
    by (simp add: close_rooms set_delete_def)
qed

theorem leave_is_safe_witness:
  "on_close all_open 4 two_in_r
     = \<lparr>relay_of = two_in_r, sends = [], logged = False, escaped = False, closes = []\<rparr>
   \<and> sends (on_close all_open 2 two_in_r) = [(1, UserLeft 8 ''t'')]
   \<and> \<not> escaped (on_close all_open 2 two_in_r)
   \<and> rooms (relay_of (on_close all_open 2 two_in_r)) ''r'' = Some [1]
   \<and> sends (on_close all_open 1 one_in_r) = []
   \<and> \<not> escaped (on_close all_open 1 one_in_r)
   \<and> rooms (relay_of (on_close all_open 1 one_in_r)) ''r'' = None"
proof -
  have a: "roomId (vars two_in_r 4) = ''''"
    by (simp add: two_in_r_def init_vars_def)
  have b: "roomId (vars two_in_r 2) \<noteq> ''''
        \<and> rooms two_in_r (roomId (vars two_in_r 2)) = Some [1, 2]
        \<and> 2 \<in> set [1, 2::nat] \<and> distinct [1, 2::nat] \<and> set_delete 2 [1, 2] \<noteq> []
        \<and> (\<forall>c\<in>set (set_delete 2 [1, 2]). is_open all_open c \<and> \<not> sendThrows all_open c)"
    by (simp add: two_in_r_def set_delete_def all_open_def is_open_def)
  have c: "roomId (vars one_in_r 1) \<noteq> ''''
        \<and> rooms one_in_r (roomId (vars one_in_r 1)) = Some [1]
        \<and> set_delete 1 [1] = []"
    by (simp add: one_in_r_def set_delete_def)
  have r2: "roomId (vars two_in_r 2) = ''r''" "userId (vars two_in_r 2) = 8"
    by (simp_all add: two_in_r_def)
  have r1: "roomId (vars one_in_r 1) = ''r''"
    by (simp add: one_in_r_def)
  have d: "set_delete 2 [1, 2] = [1]" by (simp add: set_delete_def)
  from leave_is_safe [where s = two_in_r and ws = 4 and cs = "[]" and e = all_open] a
  have 1: "on_close all_open 4 two_in_r
     = \<lparr>relay_of = two_in_r, sends = [], logged = False, escaped = False, closes = []\<rparr>"
    by blast
  from leave_is_safe [where s = two_in_r and ws = 2 and cs = "[1, 2]" and e = all_open] b
  have 2: "sends (on_close all_open 2 two_in_r) = [(1, UserLeft 8 ''t'')]
   \<and> \<not> escaped (on_close all_open 2 two_in_r)
   \<and> rooms (relay_of (on_close all_open 2 two_in_r)) ''r'' = Some [1]"
    unfolding r2 d by (simp add: all_open_def)
  from leave_is_safe [where s = one_in_r and ws = 1 and cs = "[1]" and e = all_open] c
  have 3: "sends (on_close all_open 1 one_in_r) = []
   \<and> \<not> escaped (on_close all_open 1 one_in_r)
   \<and> rooms (relay_of (on_close all_open 1 one_in_r)) ''r'' = None"
    unfolding r1 by blast
  from 1 2 3 show ?thesis by blast
qed

subsection \<open>C9: a failing send\<close>

text \<open>
  C9. The claim: a delivery failure for one participant, such as a send that throws,
  does not prevent the attempt to deliver the event to every other participant. The
  code does otherwise: with connections 1 and 2 open in room \<open>r\<close>, when the send to
  connection 1 throws, a chat message of connection 2 is sent to nobody, not even to
  connection 2, whose own send would not throw; the listener's \<^verbatim>\<open>catch\<close> logs the
  exception.
\<close>

theorem throwing_send_ends_broadcast:
  "rooms two_in_r (roomId (vars two_in_r 2)) = Some [1, 2]
   \<and> is_open first_throws 1 \<and> sendThrows first_throws 1
   \<and> is_open first_throws 2 \<and> \<not> sendThrows first_throws 2
   \<and> sends (on_message first_throws 2 (ChatMessage ''r'' ''hi'' 8 ''bob'') two_in_r) = []
   \<and> logged (on_message first_throws 2 (ChatMessage ''r'' ''hi'' 8 ''bob'') two_in_r)"
  by (simp add: on_message_def broadcastToRoom_def rooms_get_def two_in_r_def
      first_throws_def is_open_def)

text \<open>
  C9, amended. A member whose connection is not open is never sent to, so it cannot
  fail the broadcast, even when a send to it would throw: if no send to an open
  member throws, every open member of the room is sent the event, whether or not a
  user id was given for exclusion. Nothing catches per recipient: when the send to an
  open member throws, the broadcast ends there, the open members before it in the
  room's order have been sent the event and no member after it is attempted.
\<close>

theorem closed_members_do_not_block_broadcast:
  "(rs rid = Some cs \<and> (\<forall>c\<in>set cs. is_open e c \<longrightarrow> \<not> sendThrows e c) \<longrightarrow>
      broadcastToRoom e rs rid m JNull = (map (\<lambda>c. (c, m)) (filter (is_open e) cs), False)
      \<and> broadcastToRoom e rs rid m (JNum uid)
          = (map (\<lambda>c. (c, m)) (filter (is_open e) cs), False))
   \<and> (rs rid = Some (pre @ c # post)
       \<and> (\<forall>c'\<in>set pre. is_open e c' \<longrightarrow> \<not> sendThrows e c')
       \<and> is_open e c \<and> sendThrows e c \<longrightarrow>
      broadcastToRoom e rs rid m JNull
        = (map (\<lambda>c. (c, m)) (filter (is_open e) pre), True))"
proof (intro conjI impI)
  assume h: "rs rid = Some cs \<and> (\<forall>c\<in>set cs. is_open e c \<longrightarrow> \<not> sendThrows e c)"
  then have ok: "\<forall>c\<in>set cs. is_open e c \<longrightarrow> \<not> sendThrows e c" by blast
  from h show "broadcastToRoom e rs rid m JNull
      = (map (\<lambda>c. (c, m)) (filter (is_open e) cs), False)"
    by (simp add: broadcastToRoom_def forEach_send_all [OF ok] del: forEach_send.simps)
  from h show "broadcastToRoom e rs rid m (JNum uid)
          = (map (\<lambda>c. (c, m)) (filter (is_open e) cs), False)"
    by (simp add: broadcastToRoom_def forEach_send_exclusion forEach_send_all [OF ok]
        del: forEach_send.simps)
next
  assume h: "rs rid = Some (pre @ c # post)
       \<and> (\<forall>c'\<in>set pre. is_open e c' \<longrightarrow> \<not> sendThrows e c')
       \<and> is_open e c \<and> sendThrows e c"
  then have "forEach_send e m JNull (pre @ c # post)
     = (map (\<lambda>c. (c, m)) (filter (is_open e) pre), True)"
    by (intro forEach_send_abort) blast+
  with h show "broadcastToRoom e rs rid m JNull
      = (map (\<lambda>c. (c, m)) (filter (is_open e) pre), True)"
    by (simp add: broadcastToRoom_def del: forEach_send.simps)
qed

theorem closed_members_do_not_block_broadcast_witness:
  "rooms two_in_r ''r'' = Some [1, 2]
   \<and> \<not> is_open first_closing 1 \<and> sendThrows first_closing 1
   \<and> is_open first_closing 2 \<and> \<not> sendThrows first_closing 2
   \<and> broadcastToRoom first_closing (rooms two_in_r) ''r'' (UserLeft 7 ''t'') JNull
       = ([(2, UserLeft 7 ''t'')], False)
   \<and> rooms two_in_r ''r'' = Some ([] @ 1 # [2])
   \<and> is_open first_throws 1 \<and> sendThrows first_throws 1
   \<and> broadcastToRoom first_throws (rooms two_in_r) ''r'' (UserLeft 7 ''t'') JNull
       = ([], True)"
proof -
  have a: "rooms two_in_r ''r'' = Some [1, 2]
      \<and> (\<forall>c\<in>set [1, 2::nat]. is_open first_closing c \<longrightarrow> \<not> sendThrows first_closing c)"
    by (simp add: two_in_r_def first_closing_def is_open_def)
  have b: "rooms two_in_r ''r'' = Some ([] @ 1 # [2])
      \<and> (\<forall>c'\<in>set ([]::nat list). is_open first_throws c' \<longrightarrow> \<not> sendThrows first_throws c')
      \<and> is_open first_throws 1 \<and> sendThrows first_throws 1"
    by (simp add: two_in_r_def first_throws_def is_open_def)
  have c: "\<not> is_open first_closing 1 \<and> sendThrows first_closing 1
   \<and> is_open first_closing 2 \<and> \<not> sendThrows first_closing 2"
    by (simp add: first_closing_def is_open_def)
  from closed_members_do_not_block_broadcast [where rs = "rooms two_in_r"
      and rid = "''r''" and cs = "[1, 2]" and e = first_closing and m = "UserLeft 7 ''t''"
      and pre = "[1, 2]" and c = 1 and post = "[]"] a
  have 1: "broadcastToRoom first_closing (rooms two_in_r) ''r'' (UserLeft 7 ''t'') JNull
       = ([(2, UserLeft 7 ''t'')], False)"
    by (simp add: first_closing_def is_open_def)
  from closed_members_do_not_block_broadcast [where rs = "rooms two_in_r"
      and rid = "''r''" and cs = "[]" and e = first_throws and m = "UserLeft 7 ''t''"
      and pre = "[]" and c = 1 and post = "[2]"] b
  have 2: "broadcastToRoom first_throws (rooms two_in_r) ''r'' (UserLeft 7 ''t'') JNull
       = ([], True)"
    by simp
  from a b c 1 2 show ?thesis by blast
qed

subsection \<open>C10: the room of a broadcast\<close>

text \<open>
  C10. A code update and a chat message are broadcast to the room recorded in the
  connection's \<^verbatim>\<open>roomId\<close> variable, which a join sets to the room it names and which
  neither event changes; the \<^verbatim>\<open>roomId\<close> field of the event's envelope is not read.
  Two events that differ in that field only have the same effect, every recipient is
  a member of the recorded room, and (with no throwing send to an open member) all
  open members of the recorded room are recipients.
\<close>

theorem envelope_room_is_ignored:
  "on_message e ws (CodeUpdate r1 code language uid uname) s
     = on_message e ws (CodeUpdate r2 code language uid uname) s
   \<and> on_message e ws (ChatMessage r1 message uid uname) s
     = on_message e ws (ChatMessage r2 message uid uname) s
   \<and> roomId (vars (relay_of (on_message e ws (Join r uid' uname') s)) ws) = r
   \<and> relay_of (on_message e ws (CodeUpdate r1 code language uid uname) s) = s
   \<and> relay_of (on_message e ws (ChatMessage r1 message uid uname) s) = s
   \<and> (\<forall>d\<in>set (sends (on_message e ws (CodeUpdate r1 code language uid uname) s)).
        \<exists>cs. rooms s (roomId (vars s ws)) = Some cs \<and> fst d \<in> set cs)
   \<and> (\<forall>d\<in>set (sends (on_message e ws (ChatMessage r1 message uid uname) s)).
        \<exists>cs. rooms s (roomId (vars s ws)) = Some cs \<and> fst d \<in> set cs)
   \<and> (rooms s (roomId (vars s ws)) = Some cs
        \<and> (\<forall>c\<in>set cs. is_open e c \<longrightarrow> \<not> sendThrows e c) \<longrightarrow>
      sends (on_message e ws (CodeUpdate r1 code language uid uname) s)
        = map (\<lambda>c. (c, CodeUpdateMsg code language uid uname (clock e 0)))
            (filter (is_open e) cs)
      \<and> sends (on_message e ws (ChatMessage r1 message uid uname) s)
        = map (\<lambda>c. (c, ChatMessageMsg message uid uname (clock e 0)))
            (filter (is_open e) cs))"
proof (intro conjI impI ballI)
  show "on_message e ws (CodeUpdate r1 code language uid uname) s
     = on_message e ws (CodeUpdate r2 code language uid uname) s"
    by (simp add: on_message_def)
  show "on_message e ws (ChatMessage r1 message uid uname) s
     = on_message e ws (ChatMessage r2 message uid uname) s"
    by (simp add: on_message_def)
  show "roomId (vars (relay_of (on_message e ws (Join r uid' uname') s)) ws) = r"
    by (simp add: join_vars)
  show "relay_of (on_message e ws (CodeUpdate r1 code language uid uname) s) = s"
    by (simp add: other_events_keep_state)
  show "relay_of (on_message e ws (ChatMessage r1 message uid uname) s) = s"
    by (simp add: other_events_keep_state)
next
  fix d
  assume "d \<in> set (sends (on_message e ws (CodeUpdate r1 code language uid uname) s))"
  then have "d \<in> set (fst (broadcastToRoom e (rooms s) (roomId (vars s ws))
      (CodeUpdateMsg code language uid uname (clock e 0)) (JNum (userId (vars s ws)))))"
    by (simp add: on_message_def split: prod.splits)
  then show "\<exists>cs. rooms s (roomId (vars s ws)) = Some cs \<and> fst d \<in> set cs"
    by (rule broadcast_recipients)
next
  fix d
  assume "d \<in> set (sends (on_message e ws (ChatMessage r1 message uid uname) s))"
  then have "d \<in> set (fst (broadcastToRoom e (rooms s) (roomId (vars s ws))
      (ChatMessageMsg message uid uname (clock e 0)) JNull))"
    by (simp add: on_message_def split: prod.splits)
  then show "\<exists>cs. rooms s (roomId (vars s ws)) = Some cs \<and> fst d \<in> set cs"
    by (rule broadcast_recipients)
next
  assume h: "rooms s (roomId (vars s ws)) = Some cs
        \<and> (\<forall>c\<in>set cs. is_open e c \<longrightarrow> \<not> sendThrows e c)"
  then have ok: "\<forall>c\<in>set cs. is_open e c \<longrightarrow> \<not> sendThrows e c" by blast
  from h show "sends (on_message e ws (CodeUpdate r1 code language uid uname) s)
        = map (\<lambda>c. (c, CodeUpdateMsg code language uid uname (clock e 0)))
            (filter (is_open e) cs)"
    by (simp add: on_message_def broadcastToRoom_def forEach_send_exclusion
        forEach_send_all [OF ok] del: forEach_send.simps)
  from h show "sends (on_message e ws (ChatMessage r1 message uid uname) s)
        = map (\<lambda>c. (c, ChatMessageMsg message uid uname (clock e 0)))
            (filter (is_open e) cs)"
    by (simp add: on_message_def broadcastToRoom_def forEach_send_all [OF ok]
        del: forEach_send.simps)
qed

theorem envelope_room_is_ignored_witness:
  "rooms two_rooms (roomId (vars two_rooms 1)) = Some [1, 2]
   \<and> rooms two_rooms ''q'' = Some [3]
   \<and> is_open all_open 1 \<and> is_open all_open 2
   \<and> \<not> sendThrows all_open 1 \<and> \<not> sendThrows all_open 2
   \<and> sends (on_message all_open 1 (CodeUpdate ''q'' ''x'' ''py'' 7 ''alice'') two_rooms)
       = [(1, CodeUpdateMsg ''x'' ''py'' 7 ''alice'' ''t''),
          (2, CodeUpdateMsg ''x'' ''py'' 7 ''alice'' ''t'')]
   \<and> sends (on_message all_open 1 (ChatMessage ''q'' ''hi'' 7 ''alice'') two_rooms)
       = [(1, ChatMessageMsg ''hi'' 7 ''alice'' ''t''),
          (2, ChatMessageMsg ''hi'' 7 ''alice'' ''t'')]"
proof -
  have a: "rooms two_rooms (roomId (vars two_rooms 1)) = Some [1, 2]
        \<and> (\<forall>c\<in>set [1, 2::nat]. is_open all_open c \<longrightarrow> \<not> sendThrows all_open c)"
    by (simp add: two_rooms_def all_open_def)
  have b: "rooms two_rooms ''q'' = Some [3]" by (simp add: two_rooms_def)
  have c: "is_open all_open 1 \<and> is_open all_open 2
   \<and> \<not> sendThrows all_open 1 \<and> \<not> sendThrows all_open 2"
    by (simp add: all_open_def is_open_def)
  from envelope_room_is_ignored [where s = two_rooms and ws = 1 and cs = "[1, 2]"
      and e = all_open and ?r1.0 = "''q''" and code = "''x''" and language = "''py''"
      and uid = 7 and uname = "''alice''" and message = "''hi''"] a
  have "sends (on_message all_open 1 (CodeUpdate ''q'' ''x'' ''py'' 7 ''alice'') two_rooms)
       = [(1, CodeUpdateMsg ''x'' ''py'' 7 ''alice'' ''t''),
          (2, CodeUpdateMsg ''x'' ''py'' 7 ''alice'' ''t'')]
   \<and> sends (on_message all_open 1 (ChatMessage ''q'' ''hi'' 7 ''alice'') two_rooms)
       = [(1, ChatMessageMsg ''hi'' 7 ''alice'' ''t''),
          (2, ChatMessageMsg ''hi'' 7 ''alice'' ''t'')]"
    by (simp add: all_open_def is_open_def)
  with a b c show ?thesis by blast
qed

end
